theory Spec2Isabelle
  imports Main "HOL-Library.Sublist" "HOL-Library.Multiset"
begin

section \<open>nmappy: a threaded TCP port scanner\<close>

text \<open>
  A shallow embedding of \<^verbatim>\<open>nmappy.py\<close>. Python \<^verbatim>\<open>bytes\<close> are lists of 8-bit
  characters (\<^typ>\<open>string\<close>); the text obtained by decoding a response is a list of
  code points (\<^typ>\<open>nat list\<close>), since a decoded response may hold any Unicode character;
  the literals of the program, its service names and the lines it prints are
  \<^typ>\<open>string\<close>s. Python integers are \<^typ>\<open>int\<close>.
\<close>

subsection \<open>Service catalogue\<close>

type_synonym bytes = string
type_synonym pystr = "nat list"

definition CRLF :: bytes where
  "CRLF = [CHR 0x0D, CHR 0x0A]"

definition LF :: bytes where
  "LF = [CHR 0x0A]"

text \<open>The dictionary \<^verbatim>\<open>SERVICE_PROBES\<close>, in the order of its literal.\<close>

definition SERVICE_PROBES :: "(int \<times> bytes) list" where
  "SERVICE_PROBES =
    [(20, ''NOOP'' @ CRLF),
     (21, ''HELLO'' @ CRLF),
     (22, LF),
     (23, CRLF),
     (25, ''EHLO example.com'' @ CRLF),
     (53, [CHR 0x00, CHR 0x00, CHR 0x01, CHR 0x00, CHR 0x00, CHR 0x01, CHR 0x00, CHR 0x00,
           CHR 0x00, CHR 0x00, CHR 0x00, CHR 0x00, CHR 0x07] @ ''example'' @ [CHR 0x03] @ ''com'' @
          [CHR 0x00, CHR 0x00, CHR 0x01, CHR 0x00, CHR 0x01]),
     (80, ''HEAD / HTTP/1.0'' @ CRLF @ CRLF),
     (110, ''USER test'' @ CRLF),
     (143, ''TAG LOGIN test test'' @ CRLF),
     (443, [CHR 0x16, CHR 0x03, CHR 0x01, CHR 0x00, CHR 0x01, CHR 0x01]),
     (587, ''EHLO example.com'' @ CRLF),
     (3306, [CHR 0x00]),
     (3389, [CHR 0x03, CHR 0x00, CHR 0x00, CHR 0x13, CHR 0x0E, CHR 0xE0, CHR 0x00, CHR 0x00,
             CHR 0x00, CHR 0x00, CHR 0x00, CHR 0x01, CHR 0x00, CHR 0x08, CHR 0x03, CHR 0x00,
             CHR 0x00, CHR 0x00]),
     (5900, ''RFB 003.003'' @ LF),
     (8080, ''HEAD / HTTP/1.0'' @ CRLF @ CRLF)]"

text \<open>
  The dictionary \<^verbatim>\<open>SERVICE_KEYWORDS\<close>. A Python dictionary iterates in insertion
  order, so the association list keeps the order of the literal.
\<close>

definition SERVICE_KEYWORDS :: "(string \<times> string) list" where
  "SERVICE_KEYWORDS =
    [(''HTTP'', ''HTTP''),
     (''220'', ''FTP''),
     (''FTP'', ''FTP''),
     (''SSH'', ''SSH''),
     (''Telnet'', ''Telnet''),
     (''Login'', ''Telnet''),
     (''POP3'', ''POP3''),
     (''IMAP'', ''IMAP''),
     (''SMTP'', ''SMTP''),
     (''MySQL'', ''MySQL''),
     (''RFB'', ''VNC''),
     (''RDP'', ''Remote Desktop''),
     (''HTTPS'', ''HTTPS'')]"

text \<open>The code points of a literal of the program.\<close>

definition codepoints :: "string \<Rightarrow> pystr" where
  "codepoints s = map of_char s"

text \<open>Python's \<^verbatim>\<open>keyword in response\<close> on strings: a contiguous, case-sensitive match.\<close>

definition str_in :: "string \<Rightarrow> pystr \<Rightarrow> bool" where
  "str_in keyword response = sublist (codepoints keyword) response"

text \<open>
  The loop \<^verbatim>\<open>for keyword, service in SERVICE_KEYWORDS.items()\<close> of
  \<^verbatim>\<open>identify_service\<close>, which returns at the first keyword found; \<open>None\<close> is
  falling out of the loop.
\<close>

fun match_keywords :: "(string \<times> string) list \<Rightarrow> pystr \<Rightarrow> string option" where
  "match_keywords [] response = None"
| "match_keywords ((keyword, service) # rest) response =
     (if str_in keyword response then Some service else match_keywords rest response)"

subsection \<open>Port prober\<close>

text \<open>An exception, with its class name and the text \<^verbatim>\<open>str(e)\<close> gives.\<close>

datatype error = Exception (exc_class: string) (exc_str: string)

text \<open>
  What the outside world does during one port check: whether \<^verbatim>\<open>socket.socket\<close>
  raises, what \<^verbatim>\<open>connect_ex\<close> returns or raises, whether \<^verbatim>\<open>sendall\<close> of a
  payload raises, what \<^verbatim>\<open>recv\<close> of at most \<open>n\<close> bytes returns or raises, and what
  \<^verbatim>\<open>decode(errors="ignore")\<close> makes of the bytes received.
\<close>

record peer =
  socket_result :: "error option"
  connect_result :: "error + int"
  sendall_result :: "bytes \<Rightarrow> error option"
  recv_result :: "nat \<Rightarrow> error + bytes"
  decode_result :: "bytes \<Rightarrow> error + pystr"

text \<open>The body of the \<^verbatim>\<open>try\<close> block of \<^verbatim>\<open>identify_service\<close>.\<close>

definition identify_service_try :: "peer \<Rightarrow> int \<Rightarrow> error + string" where
  "identify_service_try sock port =
     (case map_of SERVICE_PROBES port of
        None \<Rightarrow> Inr ''Unknown''
      | Some probe \<Rightarrow>
          (case sendall_result sock probe of
             Some e \<Rightarrow> Inl e
           | None \<Rightarrow>
               (case recv_result sock 1024 of
                  Inl e \<Rightarrow> Inl e
                | Inr received \<Rightarrow>
                    (case decode_result sock received of
                       Inl e \<Rightarrow> Inl e
                     | Inr response \<Rightarrow>
                         (case match_keywords SERVICE_KEYWORDS response of
                            Some service \<Rightarrow> Inr service
                          | None \<Rightarrow> Inr ''Unknown'')))))"

text \<open>\<^verbatim>\<open>identify_service\<close>: the \<^verbatim>\<open>except Exception\<close> clause returns "Unknown".\<close>

definition identify_service :: "peer \<Rightarrow> int \<Rightarrow> string" where
  "identify_service sock port =
     (case identify_service_try sock port of
        Inl e \<Rightarrow> ''Unknown''
      | Inr service \<Rightarrow> service)"

subsection \<open>Port checker\<close>

text \<open>Python's \<^verbatim>\<open>str\<close> of an integer, as an f-string formats it.\<close>

definition digit_char :: "nat \<Rightarrow> char" where
  "digit_char d =
     (if d = 0 then CHR ''0'' else if d = 1 then CHR ''1'' else if d = 2 then CHR ''2''
      else if d = 3 then CHR ''3'' else if d = 4 then CHR ''4'' else if d = 5 then CHR ''5''
      else if d = 6 then CHR ''6'' else if d = 7 then CHR ''7'' else if d = 8 then CHR ''8''
      else CHR ''9'')"

function str_nat :: "nat \<Rightarrow> string" where
  "str_nat n = (if n < 10 then [digit_char n] else str_nat (n div 10) @ [digit_char (n mod 10)])"
  by pat_completeness auto
termination
  by (relation "measure id") auto

declare str_nat.simps [simp del]

definition str_int :: "int \<Rightarrow> string" where
  "str_int i = (if i < 0 then CHR ''-'' # str_nat (nat (- i)) else str_nat (nat i))"

text \<open>
  What one run of the program does, in order: a line printed, a worker thread started, a
  port put on the queue, the wait \<^verbatim>\<open>queue.join()\<close>, a socket created, its timeout
  set, the socket closed.
\<close>

datatype event =
    Print string
  | ThreadStart
  | QueuePut int
  | QueueJoin
  | SocketNew
  | SetTimeout int
  | SocketClose

fun printed :: "event list \<Rightarrow> string list" where
  "printed [] = []"
| "printed (Print line # es) = line # printed es"
| "printed (_ # es) = printed es"

fun puts :: "event list \<Rightarrow> int list" where
  "puts [] = []"
| "puts (QueuePut port # es) = port # puts es"
| "puts (_ # es) = puts es"

text \<open>The two lines \<^verbatim>\<open>scan_port\<close> can print.\<close>

definition open_line :: "int \<Rightarrow> string \<Rightarrow> string" where
  "open_line port service_name =
     ''Port '' @ str_int port @ '' is open (Service: '' @ service_name @ '')''"

definition error_line :: "int \<Rightarrow> error \<Rightarrow> string" where
  "error_line port e = ''Error scanning port '' @ str_int port @ '': '' @ exc_str e"

text \<open>
  \<^verbatim>\<open>sock.connect_ex((ip, port))\<close>: the socket module refuses a port outside 0..65535
  with an \<^verbatim>\<open>OverflowError\<close> before anything reaches the network; otherwise the call
  returns the error indicator of the connection attempt, or raises what the world makes
  it raise.
\<close>

definition connect_ex :: "peer \<Rightarrow> string \<Rightarrow> int \<Rightarrow> error + int" where
  "connect_ex sock ip port =
     (if port < 0 \<or> 65535 < port
      then Inl (Exception ''OverflowError'' ''connect_ex(): port must be 0-65535.'')
      else connect_result sock)"

text \<open>The world: what happens on the connection to each address and port.\<close>

type_synonym network = "string \<Rightarrow> int \<Rightarrow> peer"

text \<open>
  \<^verbatim>\<open>scan_port\<close>. An exception raised in the \<^verbatim>\<open>try\<close> block, by
  \<^verbatim>\<open>socket.socket\<close> or by \<^verbatim>\<open>connect_ex\<close>, goes to the handler, which prints the
  error line and returns; \<^verbatim>\<open>sock.close()\<close> is the last statement of the block, and
  there is no \<^verbatim>\<open>finally\<close>. \<^verbatim>\<open>settimeout\<close>, \<^verbatim>\<open>print\<close> and
  \<^verbatim>\<open>close\<close> are taken not to raise, and \<^verbatim>\<open>identify_service\<close> cannot.
\<close>

definition scan_port :: "network \<Rightarrow> string \<Rightarrow> int \<Rightarrow> bool \<Rightarrow> event list" where
  "scan_port net ip port verbose =
     (let sock = net ip port in
      case socket_result sock of
        Some e \<Rightarrow> [Print (error_line port e)]
      | None \<Rightarrow>
          [SocketNew, SetTimeout 1] @
          (case connect_ex sock ip port of
             Inl e \<Rightarrow> [Print (error_line port e)]
           | Inr result \<Rightarrow>
               (if result = 0
                then [Print (open_line port
                        (if verbose then identify_service sock port else ''Unknown''))]
                else []) @
               [SocketClose]))"

subsection \<open>Scan coordinator\<close>

text \<open>Python's \<^verbatim>\<open>range(start, stop)\<close>, empty when \<open>stop \<le> start\<close>.\<close>

definition range_py :: "int \<Rightarrow> int \<Rightarrow> int list" where
  "range_py start stop = [start..stop - 1]"

definition banner :: "string \<Rightarrow> int \<Rightarrow> int \<Rightarrow> string" where
  "banner ip min_port max_port =
     ''Scanning IP: '' @ ip @ '' from port '' @ str_int min_port @ '' to '' @
     str_int max_port @ '' using threads...'' @ LF"

text \<open>
  \<^verbatim>\<open>threaded_port_scan\<close>: what the main thread does, in program order. The function
  has no \<^verbatim>\<open>raise\<close> and no check of its arguments, so the result is never \<open>Inl\<close>.
\<close>

definition threaded_port_scan :: "string \<Rightarrow> int \<Rightarrow> int \<Rightarrow> error + event list" where
  "threaded_port_scan ip min_port max_port =
     (let total_ports = max_port - min_port + 1;
          max_threads = min 100 total_ports
      in Inr ([Print (banner ip min_port max_port)] @
              map (\<lambda>_. ThreadStart) (range_py 0 max_threads) @
              map QueuePut (range_py min_port (max_port + 1)) @
              [QueueJoin]))"

subsection \<open>Worker threads and the shared queue\<close>

text \<open>
  The body of the loop of \<^verbatim>\<open>threader\<close> calls
  \<^verbatim>\<open>scan_port(ip, worker, verbose=(worker <= 100))\<close> on the port it took.
\<close>

datatype call = ScanPort string int bool

definition threader_call :: "string \<Rightarrow> int \<Rightarrow> call" where
  "threader_call ip worker = ScanPort ip worker (worker \<le> 100)"

fun run_call :: "network \<Rightarrow> call \<Rightarrow> event list" where
  "run_call net (ScanPort ip port verbose) = scan_port net ip port verbose"

fun call_port :: "call \<Rightarrow> int" where
  "call_port (ScanPort ip port verbose) = port"

fun call_verbose :: "call \<Rightarrow> bool" where
  "call_verbose (ScanPort ip port verbose) = verbose"

text \<open>
  Where a worker thread stands in its loop: before \<^verbatim>\<open>queue.get()\<close>, holding the
  port it took, after \<^verbatim>\<open>scan_port\<close> returned and before
  \<^verbatim>\<open>queue.task_done()\<close>, or dead because \<^verbatim>\<open>task_done\<close> raised.
\<close>

datatype worker = Idle | Dequeued int | Scanned int | Crashed

text \<open>
  The state of one scan: the rest of the main thread's program, the items of the
  \<^verbatim>\<open>Queue\<close> and its counter \<^verbatim>\<open>unfinished_tasks\<close>, the worker threads, the lines
  printed so far, the calls of \<^verbatim>\<open>scan_port\<close> made so far and the ports for which
  \<^verbatim>\<open>task_done\<close> was called.
\<close>

record run =
  main :: "event list"
  queue :: "int list"
  unfinished_tasks :: nat
  threads :: "worker list"
  stdout :: "string list"
  calls :: "call list"
  processed :: "int list"

text \<open>
  One step of the main thread. \<^verbatim>\<open>Queue.put\<close> appends the item and increments
  \<^verbatim>\<open>unfinished_tasks\<close>; \<^verbatim>\<open>Queue.join\<close> waits while the counter is not zero, so
  the step is not enabled then. \<open>None\<close> is a thread that cannot move.
\<close>

definition main_step :: "run \<Rightarrow> run option" where
  "main_step s =
     (case main s of
        [] \<Rightarrow> None
      | e # rest \<Rightarrow>
          (case e of
             Print line \<Rightarrow> Some (s\<lparr>main := rest, stdout := stdout s @ [line]\<rparr>)
           | ThreadStart \<Rightarrow> Some (s\<lparr>main := rest, threads := threads s @ [Idle]\<rparr>)
           | QueuePut port \<Rightarrow>
               Some (s\<lparr>main := rest, queue := queue s @ [port],
                       unfinished_tasks := unfinished_tasks s + 1\<rparr>)
           | QueueJoin \<Rightarrow> if unfinished_tasks s = 0 then Some (s\<lparr>main := rest\<rparr>) else None
           | SocketNew \<Rightarrow> None
           | SetTimeout t \<Rightarrow> None
           | SocketClose \<Rightarrow> None))"

text \<open>
  One step of worker \<open>i\<close>, following \<^verbatim>\<open>threader\<close>. \<^verbatim>\<open>Queue.get\<close> waits while the
  queue is empty and takes the oldest item; then \<^verbatim>\<open>scan_port\<close> runs and its lines
  are printed; then \<^verbatim>\<open>Queue.task_done\<close> decrements \<^verbatim>\<open>unfinished_tasks\<close>, and
  raises \<^verbatim>\<open>ValueError\<close> when the counter is already zero, which ends the thread.
\<close>

definition worker_step :: "network \<Rightarrow> string \<Rightarrow> nat \<Rightarrow> run \<Rightarrow> run option" where
  "worker_step net ip i s =
     (if length (threads s) \<le> i then None
      else
        (case threads s ! i of
           Idle \<Rightarrow>
             (case queue s of
                [] \<Rightarrow> None
              | port # rest \<Rightarrow>
                  Some (s\<lparr>queue := rest, threads := (threads s)[i := Dequeued port]\<rparr>))
         | Dequeued port \<Rightarrow>
             Some (s\<lparr>stdout := stdout s @ printed (run_call net (threader_call ip port)),
                     calls := calls s @ [threader_call ip port],
                     threads := (threads s)[i := Scanned port]\<rparr>)
         | Scanned port \<Rightarrow>
             (if unfinished_tasks s = 0
              then Some (s\<lparr>threads := (threads s)[i := Crashed]\<rparr>)
              else Some (s\<lparr>unfinished_tasks := unfinished_tasks s - 1,
                           processed := processed s @ [port],
                           threads := (threads s)[i := Idle]\<rparr>))
         | Crashed \<Rightarrow> None))"

text \<open>The threads of the process, and a run under a schedule that names who moves next.\<close>

datatype thread = MainThread | WorkerThread nat

definition step :: "network \<Rightarrow> string \<Rightarrow> thread \<Rightarrow> run \<Rightarrow> run option" where
  "step net ip t s =
     (case t of MainThread \<Rightarrow> main_step s | WorkerThread i \<Rightarrow> worker_step net ip i s)"

fun exec :: "network \<Rightarrow> string \<Rightarrow> thread list \<Rightarrow> run \<Rightarrow> run option" where
  "exec net ip [] s = Some s"
| "exec net ip (t # ts) s =
     (case step net ip t s of None \<Rightarrow> None | Some s' \<Rightarrow> exec net ip ts s')"

text \<open>The call \<^verbatim>\<open>threaded_port_scan(ip, min_port, max_port)\<close> before its first step.\<close>

definition launch :: "string \<Rightarrow> int \<Rightarrow> int \<Rightarrow> error + run" where
  "launch ip min_port max_port =
     (case threaded_port_scan ip min_port max_port of
        Inl e \<Rightarrow> Inl e
      | Inr program \<Rightarrow>
          Inr \<lparr>main = program, queue = [], unfinished_tasks = 0, threads = [],
               stdout = [], calls = [], processed = []\<rparr>)"

definition reachable :: "network \<Rightarrow> string \<Rightarrow> int \<Rightarrow> int \<Rightarrow> run \<Rightarrow> bool" where
  "reachable net ip min_port max_port s \<longleftrightarrow>
     (\<exists>s0 sched. launch ip min_port max_port = Inr s0 \<and> exec net ip sched s0 = Some s)"

text \<open>\<^verbatim>\<open>threaded_port_scan\<close> has returned when the main thread has nothing left to do.\<close>

definition returned :: "run \<Rightarrow> bool" where
  "returned s \<longleftrightarrow> main s = []"

text \<open>The ports the workers hold, and those whose \<^verbatim>\<open>scan_port\<close> call is over.\<close>

fun held_of :: "worker \<Rightarrow> int multiset" where
  "held_of Idle = {#}"
| "held_of (Dequeued port) = {#port#}"
| "held_of (Scanned port) = {#port#}"
| "held_of Crashed = {#}"

fun scanned_of :: "worker \<Rightarrow> int multiset" where
  "scanned_of (Scanned port) = {#port#}"
| "scanned_of _ = {#}"

primrec held :: "worker list \<Rightarrow> int multiset" where
  "held [] = {#}"
| "held (w # ws) = held_of w + held ws"

primrec scanned :: "worker list \<Rightarrow> int multiset" where
  "scanned [] = {#}"
| "scanned (w # ws) = scanned_of w + scanned ws"

text \<open>A network for examples: port 22 accepts connections, every other port refuses.\<close>

definition refused :: peer where
  "refused = \<lparr>socket_result = None, connect_result = Inr 111,
     sendall_result = (\<lambda>_. None), recv_result = (\<lambda>_. Inr []),
     decode_result = (\<lambda>_. Inr [])\<rparr>"

definition example_net :: network where
  "example_net ip port = (if port = 22 then refused\<lparr>connect_result := Inr 0\<rparr> else refused)"

text \<open>A peer that accepts the connection on port 21 and then lets \<^verbatim>\<open>recv\<close> time out.\<close>

definition silent_net :: network where
  "silent_net ip port =
     (if port = 21
      then refused\<lparr>connect_result := Inr 0,
                   recv_result := (\<lambda>_. Inl (Exception ''TimeoutError'' ''timed out''))\<rparr>
      else refused)"

text \<open>
  The states after \<^verbatim>\<open>threaded_port_scan("10.0.0.1", 22, 22)\<close> and
  \<^verbatim>\<open>threaded_port_scan("10.0.0.1", 150, 150)\<close> have returned on \<open>example_net\<close>, and
  the schedule that leads to both: the main thread prints, starts the worker and puts the
  port, the worker takes it, scans it and marks it done, the main thread passes the join.
\<close>

definition final_22 :: run where
  "final_22 =
     \<lparr>main = [], queue = [], unfinished_tasks = 0, threads = [Idle],
      stdout = [banner ''10.0.0.1'' 22 22, ''Port 22 is open (Service: Unknown)''],
      calls = [ScanPort ''10.0.0.1'' 22 True], processed = [22]\<rparr>"

definition final_150 :: run where
  "final_150 =
     \<lparr>main = [], queue = [], unfinished_tasks = 0, threads = [Idle],
      stdout = [banner ''10.0.0.1'' 150 150],
      calls = [ScanPort ''10.0.0.1'' 150 False], processed = [150]\<rparr>"

definition sched_22 :: "thread list" where
  "sched_22 = [MainThread, MainThread, MainThread, WorkerThread 0, WorkerThread 0,
               WorkerThread 0, MainThread]"

subsection \<open>Invariants of a scan\<close>

text \<open>
  The counter \<^verbatim>\<open>unfinished_tasks\<close> counts the queued ports and the ports held by
  workers; no worker has crashed; every port of the range is still to be put, queued,
  held or processed; every processed or scanned port was passed to \<^verbatim>\<open>scan_port\<close>;
  the main thread ends with the \<^verbatim>\<open>join\<close>, which it passes only with the counter
  at zero.
\<close>

definition scan_inv :: "int \<Rightarrow> int \<Rightarrow> run \<Rightarrow> bool" where
  "scan_inv lo hi s \<longleftrightarrow>
     unfinished_tasks s = length (queue s) + size (held (threads s)) \<and>
     Crashed \<notin> set (threads s) \<and>
     mset (queue s) + held (threads s) + mset (processed s) + mset (puts (main s)) =
       mset [lo..hi] \<and>
     mset (map call_port (calls s)) = mset (processed s) + scanned (threads s) \<and>
     (main s = [] \<longrightarrow> unfinished_tasks s = 0) \<and>
     (main s = [] \<or> (\<exists>pre. main s = pre @ [QueueJoin] \<and> QueueJoin \<notin> set pre))"

text \<open>Every call of \<^verbatim>\<open>scan_port\<close> made so far has the flag the port decides.\<close>

definition calls_inv :: "run \<Rightarrow> bool" where
  "calls_inv s \<longleftrightarrow> (\<forall>c \<in> set (calls s). call_verbose c = (call_port c \<le> 100))"

text \<open>A scan that has no worker and nothing to put does nothing but print and join.\<close>

definition idle_inv :: "run \<Rightarrow> bool" where
  "idle_inv s \<longleftrightarrow>
     threads s = [] \<and> queue s = [] \<and> calls s = [] \<and> processed s = [] \<and>
     unfinished_tasks s = 0 \<and>
     (\<forall>e \<in> set (main s). e = QueueJoin \<or> (\<exists>line. e = Print line))"

section \<open>Properties\<close>

subsection \<open>Auxiliary facts\<close>

lemma held_update:
  "i < length ws \<Longrightarrow> held (ws[i := w]) + held_of (ws ! i) = held ws + held_of w"
proof (induction ws arbitrary: i)
  case Nil
  then show ?case by simp
next
  case (Cons a ws)
  show ?case
  proof (cases i)
    case 0
    then show ?thesis by (simp add: ac_simps)
  next
    case (Suc k)
    with Cons.prems have "k < length ws" by simp
    from Cons.IH[OF this] Suc show ?thesis by (simp add: ac_simps)
  qed
qed

lemma scanned_update:
  "i < length ws \<Longrightarrow> scanned (ws[i := w]) + scanned_of (ws ! i) = scanned ws + scanned_of w"
proof (induction ws arbitrary: i)
  case Nil
  then show ?case by simp
next
  case (Cons a ws)
  show ?case
  proof (cases i)
    case 0
    then show ?thesis by (simp add: ac_simps)
  next
    case (Suc k)
    with Cons.prems have "k < length ws" by simp
    from Cons.IH[OF this] Suc show ?thesis by (simp add: ac_simps)
  qed
qed

lemma held_snoc: "held (ws @ [w]) = held ws + held_of w"
  by (induction ws) (simp_all add: ac_simps)

lemma scanned_snoc: "scanned (ws @ [w]) = scanned ws + scanned_of w"
  by (induction ws) (simp_all add: ac_simps)

lemma held_empty_idle:
  "held ws = {#} \<Longrightarrow> Crashed \<notin> set ws \<Longrightarrow> w \<in> set ws \<Longrightarrow> w = Idle"
proof (induction ws)
  case Nil
  then show ?case by simp
next
  case (Cons a ws)
  then show ?case by (cases a) auto
qed

lemma no_crash_update:
  "Crashed \<notin> set ws \<Longrightarrow> w \<noteq> Crashed \<Longrightarrow> Crashed \<notin> set (ws[i := w])"
  using set_update_subset_insert[of ws i w] by auto

lemma puts_snoc_join: "puts (pre @ [QueueJoin]) = puts pre"
  by (induction pre rule: puts.induct) simp_all

lemma inv_main_step:
  assumes "scan_inv lo hi s" and "main_step s = Some s'"
  shows "scan_inv lo hi s'"
proof (cases "main s")
  case Nil
  with assms(2) show ?thesis by (simp add: main_step_def)
next
  case (Cons e rest)
  from assms(1) Cons obtain pre where pre: "e # rest = pre @ [QueueJoin]" "QueueJoin \<notin> set pre"
    by (auto simp: scan_inv_def)
  show ?thesis
  proof (cases pre)
    case Nil
    with pre have e: "e = QueueJoin" "rest = []" by simp_all
    with assms Cons show ?thesis
      by (auto simp: main_step_def scan_inv_def split: if_splits)
  next
    case (Cons x pre')
    with pre have e: "e = x" "rest = pre' @ [QueueJoin]" "x \<noteq> QueueJoin" "QueueJoin \<notin> set pre'"
      by auto
    with assms \<open>main s = e # rest\<close> show ?thesis
      by (cases x) (auto simp: main_step_def scan_inv_def held_snoc scanned_snoc puts_snoc_join)
  qed
qed


lemma inv_worker_step:
  assumes "scan_inv lo hi s" and "worker_step net ip i s = Some s'"
  shows "scan_inv lo hi s'"
proof -
  from assms(2) have i: "i < length (threads s)"
    by (simp add: worker_step_def split: if_splits)
  note hu = held_update[OF i] and su = scanned_update[OF i]
  show ?thesis
  proof (cases "threads s ! i")
    case Idle
    show ?thesis
    proof (cases "queue s")
      case Nil
      with assms(2) i Idle show ?thesis by (simp add: worker_step_def)
    next
      case (Cons port rest)
      with assms(2) i Idle
      have s': "s' = s\<lparr>queue := rest, threads := (threads s)[i := Dequeued port]\<rparr>"
        by (simp add: worker_step_def)
      from hu[of "Dequeued port"] Idle
      have h: "held ((threads s)[i := Dequeued port]) = held (threads s) + {#port#}" by simp
      from su[of "Dequeued port"] Idle
      have c: "scanned ((threads s)[i := Dequeued port]) = scanned (threads s)" by simp
      from assms(1) have "main s \<noteq> []"
        using Cons by (auto simp: scan_inv_def)
      with assms(1) show ?thesis
        unfolding scan_inv_def s' by (simp add: h c Cons no_crash_update)
    qed
  next
    case (Dequeued port)
    with assms(2) i
    have s': "s' = s\<lparr>stdout := stdout s @ printed (run_call net (threader_call ip port)),
                     calls := calls s @ [threader_call ip port],
                     threads := (threads s)[i := Scanned port]\<rparr>"
      by (simp add: worker_step_def)
    from hu[of "Scanned port"] Dequeued
    have h: "held ((threads s)[i := Scanned port]) = held (threads s)" by simp
    from su[of "Scanned port"] Dequeued
    have c: "scanned ((threads s)[i := Scanned port]) = scanned (threads s) + {#port#}" by simp
    from hu[of Idle] Dequeued
    have "held (threads s) = held ((threads s)[i := Idle]) + {#port#}" by simp
    then have "port \<in># held (threads s)" by simp
    with assms(1) have "main s \<noteq> []" by (auto simp: scan_inv_def)
    with assms(1) show ?thesis
      unfolding scan_inv_def s' by (simp add: h c no_crash_update threader_call_def)
  next
    case (Scanned port)
    from hu[of Idle] Scanned have hp: "held (threads s) = held ((threads s)[i := Idle]) + {#port#}"
      by simp
    from su[of Idle] Scanned
    have cp: "scanned (threads s) = scanned ((threads s)[i := Idle]) + {#port#}"
      by simp
    from assms(1) hp have pos: "unfinished_tasks s \<noteq> 0" "main s \<noteq> []"
      by (auto simp: scan_inv_def)
    with assms(2) i Scanned
    have s': "s' = s\<lparr>unfinished_tasks := unfinished_tasks s - 1,
                     processed := processed s @ [port],
                     threads := (threads s)[i := Idle]\<rparr>"
      by (simp add: worker_step_def)
    have a: "unfinished_tasks s - 1 = length (queue s) + size (held ((threads s)[i := Idle]))"
      using assms(1) by (subst (asm) scan_inv_def, subst (asm) hp) simp
    have b: "mset (queue s) + held ((threads s)[i := Idle]) + mset (processed s @ [port]) +
             mset (puts (main s)) = mset [lo..hi]"
      using assms(1) by (subst (asm) scan_inv_def, subst (asm) (2) hp) (simp add: ac_simps)
    have d: "mset (map call_port (calls s)) = mset (processed s @ [port]) + scanned ((threads s)[i := Idle])"
      using assms(1) by (subst (asm) scan_inv_def, subst (asm) cp) (simp add: ac_simps)
    from assms(1) pos show ?thesis
      unfolding s' using a b d by (simp add: scan_inv_def no_crash_update)
  next
    case Crashed
    from i have "threads s ! i \<in> set (threads s)" by simp
    with Crashed assms(1) show ?thesis by (simp add: scan_inv_def)
  qed
qed

lemma inv_step: "scan_inv lo hi s \<Longrightarrow> step net ip t s = Some s' \<Longrightarrow> scan_inv lo hi s'"
  by (cases t) (auto simp: step_def intro: inv_main_step inv_worker_step)

lemma exec_invariant:
  assumes "exec net ip sched s = Some s'" and "P s"
    and "\<And>t a b. P a \<Longrightarrow> step net ip t a = Some b \<Longrightarrow> P b"
  shows "P s'"
  using assms(1,2)
proof (induction sched arbitrary: s)
  case Nil
  then show ?case by simp
next
  case (Cons t ts)
  then show ?case by (auto split: option.splits intro: assms(3))
qed

lemma str_nat_small: "n < 10 \<Longrightarrow> str_nat n = [digit_char n]"
  by (simp add: str_nat.simps)

lemma str_nat_large: "10 \<le> n \<Longrightarrow> str_nat n = str_nat (n div 10) @ [digit_char (n mod 10)]"
  by (subst str_nat.simps) simp

lemmas str_eval = str_int_def str_nat_small str_nat_large digit_char_def

lemma match_keywords_Some_iff:
  "match_keywords kws r = Some s \<longleftrightarrow>
     (\<exists>earlier keyword later. kws = earlier @ (keyword, s) # later \<and> str_in keyword r \<and>
        (\<forall>entry \<in> set earlier. \<not> str_in (fst entry) r))"
proof (induction kws)
  case Nil
  then show ?case by simp
next
  case (Cons a kws)
  obtain k v where a: "a = (k, v)" by (cases a)
  show ?case
  proof (cases "str_in k r")
    case True
    have "(\<exists>earlier keyword later. (k, v) # kws = earlier @ (keyword, s) # later \<and>
            str_in keyword r \<and> (\<forall>entry \<in> set earlier. \<not> str_in (fst entry) r)) \<longleftrightarrow> v = s"
    proof
      assume "\<exists>earlier keyword later. (k, v) # kws = earlier @ (keyword, s) # later \<and>
            str_in keyword r \<and> (\<forall>entry \<in> set earlier. \<not> str_in (fst entry) r)"
      then obtain earlier keyword later where
        e: "(k, v) # kws = earlier @ (keyword, s) # later" "str_in keyword r"
           "\<forall>entry \<in> set earlier. \<not> str_in (fst entry) r" by blast
      show "v = s"
      proof (cases earlier)
        case Nil
        with e(1) show ?thesis by simp
      next
        case (Cons b bs)
        with e(1) have "b = (k, v)" by simp
        with Cons e(3) True show ?thesis by simp
      qed
    next
      assume "v = s"
      then have "(k, v) # kws = [] @ (k, s) # kws" by simp
      with True show "\<exists>earlier keyword later. (k, v) # kws = earlier @ (keyword, s) # later \<and>
            str_in keyword r \<and> (\<forall>entry \<in> set earlier. \<not> str_in (fst entry) r)"
        by (metis empty_iff list.set(1))
    qed
    with True a show ?thesis by simp
  next
    case False
    have "(\<exists>earlier keyword later. (k, v) # kws = earlier @ (keyword, s) # later \<and>
            str_in keyword r \<and> (\<forall>entry \<in> set earlier. \<not> str_in (fst entry) r)) \<longleftrightarrow>
          (\<exists>earlier keyword later. kws = earlier @ (keyword, s) # later \<and>
            str_in keyword r \<and> (\<forall>entry \<in> set earlier. \<not> str_in (fst entry) r))"
    proof
      assume "\<exists>earlier keyword later. (k, v) # kws = earlier @ (keyword, s) # later \<and>
            str_in keyword r \<and> (\<forall>entry \<in> set earlier. \<not> str_in (fst entry) r)"
      then obtain earlier keyword later where
        e: "(k, v) # kws = earlier @ (keyword, s) # later" "str_in keyword r"
           "\<forall>entry \<in> set earlier. \<not> str_in (fst entry) r" by blast
      show "\<exists>earlier keyword later. kws = earlier @ (keyword, s) # later \<and>
            str_in keyword r \<and> (\<forall>entry \<in> set earlier. \<not> str_in (fst entry) r)"
      proof (cases earlier)
        case Nil
        with e(1,2) False show ?thesis by simp
      next
        case (Cons b bs)
        with e(1) have "kws = bs @ (keyword, s) # later" by simp
        moreover from Cons e(3) have "\<forall>entry \<in> set bs. \<not> str_in (fst entry) r" by simp
        ultimately show ?thesis using e(2) by blast
      qed
    next
      assume "\<exists>earlier keyword later. kws = earlier @ (keyword, s) # later \<and>
            str_in keyword r \<and> (\<forall>entry \<in> set earlier. \<not> str_in (fst entry) r)"
      then obtain earlier keyword later where
        e: "kws = earlier @ (keyword, s) # later" "str_in keyword r"
           "\<forall>entry \<in> set earlier. \<not> str_in (fst entry) r" by blast
      from e(1) have "(k, v) # kws = ((k, v) # earlier) @ (keyword, s) # later" by simp
      moreover from e(3) False have "\<forall>entry \<in> set ((k, v) # earlier). \<not> str_in (fst entry) r"
        by simp
      ultimately show "\<exists>earlier keyword later. (k, v) # kws = earlier @ (keyword, s) # later \<and>
            str_in keyword r \<and> (\<forall>entry \<in> set earlier. \<not> str_in (fst entry) r)"
        using e(2) by blast
    qed
    with False a Cons.IH show ?thesis by simp
  qed
qed

lemma match_keywords_None_iff:
  "match_keywords kws r = None \<longleftrightarrow> (\<forall>entry \<in> set kws. \<not> str_in (fst entry) r)"
  by (induction kws r rule: match_keywords.induct) auto

lemma https_contains_http: "str_in ''HTTPS'' r \<Longrightarrow> str_in ''HTTP'' r"
proof -
  assume "str_in ''HTTPS'' r"
  then have "sublist (codepoints ''HTTP'' @ codepoints ''S'') r"
    by (simp add: str_in_def codepoints_def)
  then obtain ps ss where "r = ps @ (codepoints ''HTTP'' @ codepoints ''S'') @ ss"
    unfolding sublist_def by blast
  then have "r = ps @ codepoints ''HTTP'' @ (codepoints ''S'' @ ss)" by simp
  then show ?thesis
    unfolding str_in_def sublist_def by blast
qed

lemma match_first_http: "str_in ''HTTP'' r \<Longrightarrow> match_keywords SERVICE_KEYWORDS r = Some ''HTTP''"
  by (simp add: SERVICE_KEYWORDS_def)

lemma match_220: 
  "str_in ''220'' r \<Longrightarrow> \<not> str_in ''HTTP'' r \<Longrightarrow> match_keywords SERVICE_KEYWORDS r = Some ''FTP''"
  by (simp add: SERVICE_KEYWORDS_def)

lemma match_never_https: "match_keywords SERVICE_KEYWORDS r \<noteq> Some ''HTTPS''"
proof (cases "str_in ''HTTP'' r")
  case True
  then show ?thesis by (simp add: match_first_http)
next
  case False
  with https_contains_http have "\<not> str_in ''HTTPS'' r" by blast
  with False show ?thesis by (simp add: SERVICE_KEYWORDS_def)
qed

lemma identify_service_cases:
  "identify_service sock port = ''Unknown'' \<or>
   (\<exists>r. match_keywords SERVICE_KEYWORDS r = Some (identify_service sock port))"
  by (auto simp: identify_service_def identify_service_try_def
      split: option.splits sum.splits)

subsection \<open>Classification\<close>

text \<open>
  Claim C5. Classification walks the keyword table in the order of its literal and returns
  the service of the first keyword that occurs in the decoded response as a contiguous,
  case-sensitive substring: the result is \<open>Some service\<close> exactly when the table splits
  into earlier entries, none of whose keywords occurs, and an entry for \<open>service\<close> whose
  keyword occurs; it is \<open>None\<close> exactly when no keyword occurs. A response with "220"
  and without "HTTP" is FTP; a response with both "HTTP" and "220" is HTTP, wherever the
  two stand in the text.
\<close>

theorem classify_first_keyword_in_table_order:
  "(match_keywords SERVICE_KEYWORDS response = Some service \<longleftrightarrow>
      (\<exists>earlier keyword later.
         SERVICE_KEYWORDS = earlier @ (keyword, service) # later \<and>
         str_in keyword response \<and>
         (\<forall>entry \<in> set earlier. \<not> str_in (fst entry) response))) \<and>
   (match_keywords SERVICE_KEYWORDS response = None \<longleftrightarrow>
      (\<forall>entry \<in> set SERVICE_KEYWORDS. \<not> str_in (fst entry) response)) \<and>
   (str_in ''220'' response \<and> \<not> str_in ''HTTP'' response \<longrightarrow>
      match_keywords SERVICE_KEYWORDS response = Some ''FTP'') \<and>
   (str_in ''HTTP'' response \<and> str_in ''220'' response \<longrightarrow>
      match_keywords SERVICE_KEYWORDS response = Some ''HTTP'')"
  using match_keywords_Some_iff[of SERVICE_KEYWORDS response service]
    match_keywords_None_iff[of SERVICE_KEYWORDS response]
    match_220[of response] match_first_http[of response]
  by blast

lemma str_in_eval:
  "str_in ''220'' (codepoints ''220 Welcome'')"
  "\<not> str_in ''HTTP'' (codepoints ''220 Welcome'')"
  "str_in ''HTTP'' (codepoints ''220 HTTP/1.1'')"
  "str_in ''220'' (codepoints ''220 HTTP/1.1'')"
  "str_in ''HTTPS'' (codepoints ''try HTTPS'')"
  by (simp_all add: str_in_def codepoints_def sublist_code)

text \<open>
  The responses "220 Welcome" and "220 HTTP/1.1": the second has "220" before "HTTP" in the
  text and is still HTTP.
\<close>

theorem classify_first_keyword_in_table_order_witness:
  "str_in ''220'' (codepoints ''220 Welcome'') \<and>
   \<not> str_in ''HTTP'' (codepoints ''220 Welcome'') \<and>
   match_keywords SERVICE_KEYWORDS (codepoints ''220 Welcome'') = Some ''FTP'' \<and>
   str_in ''HTTP'' (codepoints ''220 HTTP/1.1'') \<and>
   str_in ''220'' (codepoints ''220 HTTP/1.1'') \<and>
   match_keywords SERVICE_KEYWORDS (codepoints ''220 HTTP/1.1'') = Some ''HTTP''"
  using classify_first_keyword_in_table_order[of "codepoints ''220 Welcome''" "''FTP''"]
    classify_first_keyword_in_table_order[of "codepoints ''220 HTTP/1.1''" "''HTTP''"]
    str_in_eval
  by blast

text \<open>
  Claim C9. Classification never returns "HTTPS", and neither does
  \<^verbatim>\<open>identify_service\<close>: a text that contains "HTTPS" contains "HTTP", the first
  keyword of the table, and is classified as HTTP.
\<close>

theorem https_entry_unreachable:
  "match_keywords SERVICE_KEYWORDS response \<noteq> Some ''HTTPS'' \<and>
   identify_service sock port \<noteq> ''HTTPS'' \<and>
   (str_in ''HTTPS'' response \<longrightarrow>
      str_in ''HTTP'' response \<and> match_keywords SERVICE_KEYWORDS response = Some ''HTTP'')"
proof -
  have "identify_service sock port \<noteq> ''HTTPS''"
    using identify_service_cases[of sock port] match_never_https by auto
  then show ?thesis
    using match_never_https[of response] https_contains_http[of response]
      match_first_http[of response]
    by blast
qed

text \<open>The response "try HTTPS" is classified as HTTP.\<close>

theorem https_entry_unreachable_witness:
  "str_in ''HTTPS'' (codepoints ''try HTTPS'') \<and>
   match_keywords SERVICE_KEYWORDS (codepoints ''try HTTPS'') = Some ''HTTP''"
  using https_entry_unreachable[of "codepoints ''try HTTPS''"] str_in_eval(5)
  by blast

subsection \<open>The main thread's program\<close>

lemma puts_thread_starts: "puts (replicate n ThreadStart @ es) = puts es"
  by (induction n) simp_all

lemma puts_queue_puts: "puts (map QueuePut ports @ es) = ports @ puts es"
  by (induction ports) simp_all

lemma range_py_upto: "range_py lo (hi + 1) = [lo..hi]"
  by (simp add: range_py_def)

lemma thread_starts_replicate:
  "map (\<lambda>_. ThreadStart) (range_py 0 n) = replicate (nat n) ThreadStart"
  by (simp add: range_py_def map_replicate_const)

lemma threaded_port_scan_program:
  "threaded_port_scan ip lo hi =
     Inr (Print (banner ip lo hi) # replicate (nat (min 100 (hi - lo + 1))) ThreadStart @
          map QueuePut [lo..hi] @ [QueueJoin])"
  by (simp add: threaded_port_scan_def Let_def thread_starts_replicate range_py_upto)

lemma puts_program:
  "puts (Print b # replicate n ThreadStart @ map QueuePut ports @ [QueueJoin]) = ports"
  by (simp add: puts_thread_starts puts_queue_puts)

lemma count_starts_program:
  "length (filter (\<lambda>e. e = ThreadStart)
     (Print b # replicate n ThreadStart @ map QueuePut ports @ [QueueJoin])) = n"
  by (simp add: filter_map comp_def)

text \<open>
  Claim C1. For \<open>min_port \<le> max_port\<close> the main thread prints the banner, starts its
  workers, and only then puts the ports \<open>min_port, \<dots>, max_port\<close> on the queue, one
  after the other in ascending order, before it joins: \<open>max_port - min_port + 1\<close> ports,
  each once, none left out.
\<close>

theorem enqueue_range_after_workers:
  assumes "min_port \<le> max_port"
  shows "\<exists>program workers.
           threaded_port_scan ip min_port max_port = Inr program \<and>
           program = Print (banner ip min_port max_port) # replicate workers ThreadStart @
                     map QueuePut [min_port..max_port] @ [QueueJoin] \<and>
           puts program = [min_port..max_port] \<and>
           int (length (puts program)) = max_port - min_port + 1 \<and>
           sorted (puts program) \<and> distinct (puts program) \<and>
           set (puts program) = {min_port..max_port}"
proof -
  let ?n = "nat (min 100 (max_port - min_port + 1))"
  let ?p = "Print (banner ip min_port max_port) # replicate ?n ThreadStart @
            map QueuePut [min_port..max_port] @ [QueueJoin]"
  have p: "puts ?p = [min_port..max_port]" by (rule puts_program)
  have "threaded_port_scan ip min_port max_port = Inr ?p"
    by (rule threaded_port_scan_program)
  moreover have "int (length (puts ?p)) = max_port - min_port + 1"
    unfolding p using assms by simp
  moreover have "sorted (puts ?p)" "distinct (puts ?p)" "set (puts ?p) = {min_port..max_port}"
    unfolding p by simp_all
  ultimately show ?thesis using p by blast
qed

theorem enqueue_range_after_workers_witness:
  "(20::int) \<le> 22 \<and>
   threaded_port_scan ''10.0.0.1'' 20 22 =
     Inr [Print (banner ''10.0.0.1'' 20 22), ThreadStart, ThreadStart, ThreadStart,
          QueuePut 20, QueuePut 21, QueuePut 22, QueueJoin]"
proof -
  have h: "(20::int) \<le> 22" by simp
  have r: "[20..22] = [20, 21, 22::int]" by (simp add: upto_rec1)
  from enqueue_range_after_workers[OF h, of "''10.0.0.1''"]
  obtain program workers where
    a: "threaded_port_scan ''10.0.0.1'' 20 22 = Inr program" and
    b: "program = Print (banner ''10.0.0.1'' 20 22) # replicate workers ThreadStart @
          map QueuePut [20..22] @ [QueueJoin]"
    by blast
  have "threaded_port_scan ''10.0.0.1'' 20 22 =
     Inr (Print (banner ''10.0.0.1'' 20 22) # replicate 3 ThreadStart @
          map QueuePut [20..22] @ [QueueJoin])"
    by (simp add: threaded_port_scan_program)
  with a b r h show ?thesis by (simp add: numeral_3_eq_3)
qed

text \<open>
  Claim C3, as the code has it. \<^verbatim>\<open>threaded_port_scan\<close> checks nothing: for a range that
  is empty or has a bound outside 1..65535 it raises no error, starts
  \<open>min(100, max_port - min_port + 1)\<close> workers (none when that is not positive) and puts
  every port of \<open>range(min_port, max_port + 1)\<close> on the queue.
\<close>

theorem invalid_range_not_rejected:
  assumes "max_port < min_port \<or> min_port < 1 \<or> 65535 < min_port \<or>
           max_port < 1 \<or> 65535 < max_port"
  shows "\<exists>program.
           threaded_port_scan ip min_port max_port = Inr program \<and>
           length (filter (\<lambda>e. e = ThreadStart) program) =
             nat (min 100 (max_port - min_port + 1)) \<and>
           puts program = [min_port..max_port]"
  using threaded_port_scan_program[of ip min_port max_port] puts_program count_starts_program
  by blast

theorem invalid_range_not_rejected_witness:
  "((0::int) < 0 \<or> (0::int) < 1 \<or> 65535 < (0::int) \<or> (0::int) < 1 \<or> 65535 < (0::int)) \<and>
   (\<exists>program. threaded_port_scan ''10.0.0.1'' 0 0 = Inr program \<and> puts program = [0])"
proof -
  have h: "(0::int) < 0 \<or> (0::int) < 1 \<or> 65535 < (0::int) \<or> (0::int) < 1 \<or> 65535 < (0::int)"
    by simp
  from invalid_range_not_rejected[OF h, of "''10.0.0.1''"] h show ?thesis
    by (auto simp: upto_rec1)
qed

text \<open>
  The range 0..0 is invalid, and the scan does not fail: a worker is started and port 0 is
  put on the queue.
\<close>

theorem invalid_range_counterexample:
  "\<not> isl (threaded_port_scan ''10.0.0.1'' 0 0) \<and>
   ThreadStart \<in> set (projr (threaded_port_scan ''10.0.0.1'' 0 0)) \<and>
   puts (projr (threaded_port_scan ''10.0.0.1'' 0 0)) = [0]"
  by (simp add: threaded_port_scan_program puts_thread_starts upto_rec1)

subsection \<open>Port checker and prober\<close>

lemma identify_service_error:
  "identify_service_try sock port = Inl e \<Longrightarrow> identify_service sock port = ''Unknown''"
  by (simp add: identify_service_def)

lemma scan_port_events:
  "scan_port net ip port verbose =
     (case socket_result (net ip port) of
        Some e \<Rightarrow> [Print (error_line port e)]
      | None \<Rightarrow>
          (case connect_ex (net ip port) ip port of
             Inl e \<Rightarrow> [SocketNew, SetTimeout 1, Print (error_line port e)]
           | Inr result \<Rightarrow>
               if result = 0
               then [SocketNew, SetTimeout 1,
                     Print (open_line port
                       (if verbose then identify_service (net ip port) port else ''Unknown'')),
                     SocketClose]
               else [SocketNew, SetTimeout 1, SocketClose]))"
  by (simp add: scan_port_def Let_def split: option.splits sum.splits)

lemma overflow_70000:
  "connect_ex sock ip 70000 =
     Inl (Exception ''OverflowError'' ''connect_ex(): port must be 0-65535.'')"
  by (simp add: connect_ex_def)

lemma scan_port_70000:
  "scan_port example_net ''10.0.0.1'' 70000 verbose =
     [SocketNew, SetTimeout 1,
      Print ''Error scanning port 70000: connect_ex(): port must be 0-65535.'']"
  by (simp add: scan_port_events overflow_70000 example_net_def refused_def error_line_def
      str_eval)

text \<open>
  Claim C6 fails on the code. \<^verbatim>\<open>scan_port("10.0.0.1", 70000, False)\<close> creates its
  socket, \<^verbatim>\<open>connect_ex\<close> raises, the handler prints the error line, and the function
  returns without having closed the socket.
\<close>

theorem socket_left_open_when_connect_raises:
  "scan_port example_net ''10.0.0.1'' 70000 False =
     [SocketNew, SetTimeout 1,
      Print ''Error scanning port 70000: connect_ex(): port must be 0-65535.''] \<and>
   SocketNew \<in> set (scan_port example_net ''10.0.0.1'' 70000 False) \<and>
   SocketClose \<notin> set (scan_port example_net ''10.0.0.1'' 70000 False)"
  by (simp add: scan_port_70000)

text \<open>
  Claim C7. \<^verbatim>\<open>identify_service\<close> returns a service name whatever happens: when
  \<^verbatim>\<open>sendall\<close>, \<^verbatim>\<open>recv\<close> or the decoding raises, the name is "Unknown". A port whose
  connection succeeded and whose probe failed is reported open with service "Unknown",
  and its socket is closed.
\<close>

theorem probe_failure_is_unknown:
  "(identify_service_try sock port = Inl e \<longrightarrow> identify_service sock port = ''Unknown'') \<and>
   (map_of SERVICE_PROBES port = Some probe \<and> sendall_result sock probe = Some e \<longrightarrow>
      identify_service sock port = ''Unknown'') \<and>
   (map_of SERVICE_PROBES port = Some probe \<and> sendall_result sock probe = None \<and>
    recv_result sock 1024 = Inl e \<longrightarrow>
      identify_service sock port = ''Unknown'') \<and>
   (map_of SERVICE_PROBES port = Some probe \<and> sendall_result sock probe = None \<and>
    recv_result sock 1024 = Inr received \<and> decode_result sock received = Inl e \<longrightarrow>
      identify_service sock port = ''Unknown'') \<and>
   (socket_result (net ip port) = None \<and> connect_ex (net ip port) ip port = Inr 0 \<and>
    identify_service_try (net ip port) port = Inl e \<longrightarrow>
      scan_port net ip port True =
        [SocketNew, SetTimeout 1,
         Print (''Port '' @ str_int port @ '' is open (Service: Unknown)''), SocketClose])"
  by (simp add: identify_service_def identify_service_try_def scan_port_events open_line_def)

lemma silent_21:
  "socket_result (silent_net ''10.0.0.1'' 21) = None"
  "connect_ex (silent_net ''10.0.0.1'' 21) ''10.0.0.1'' 21 = Inr 0"
  "identify_service_try (silent_net ''10.0.0.1'' 21) 21 =
     Inl (Exception ''TimeoutError'' ''timed out'')"
  by (simp_all add: silent_net_def refused_def connect_ex_def identify_service_try_def
      SERVICE_PROBES_def)

theorem probe_failure_is_unknown_witness:
  "socket_result (silent_net ''10.0.0.1'' 21) = None \<and>
   connect_ex (silent_net ''10.0.0.1'' 21) ''10.0.0.1'' 21 = Inr 0 \<and>
   identify_service_try (silent_net ''10.0.0.1'' 21) 21 =
     Inl (Exception ''TimeoutError'' ''timed out'') \<and>
   identify_service (silent_net ''10.0.0.1'' 21) 21 = ''Unknown'' \<and>
   scan_port silent_net ''10.0.0.1'' 21 True =
     [SocketNew, SetTimeout 1, Print ''Port 21 is open (Service: Unknown)'', SocketClose]"
proof -
  have "str_int 21 = ''21''" by (simp add: str_eval)
  with probe_failure_is_unknown[of "silent_net ''10.0.0.1'' 21" 21
      "Exception ''TimeoutError'' ''timed out''" _ _ silent_net "''10.0.0.1''"]
    silent_21
  show ?thesis by simp
qed

text \<open>
  Claim C8, as the code has it. A connection attempt that returns a non-zero error
  indicator prints nothing. A connection attempt that returns 0 prints exactly one line,
  "Port {port} is open (Service: {service})". When \<^verbatim>\<open>socket.socket\<close> or
  \<^verbatim>\<open>connect_ex\<close> raises, the handler prints exactly one line,
  "Error scanning port {port}: {e}".
\<close>

theorem scan_port_output:
  "(socket_result (net ip port) = None \<and> connect_ex (net ip port) ip port = Inr result \<and>
    result \<noteq> 0 \<longrightarrow>
      printed (scan_port net ip port verbose) = []) \<and>
   (socket_result (net ip port) = None \<and> connect_ex (net ip port) ip port = Inr 0 \<longrightarrow>
      printed (scan_port net ip port verbose) =
        [''Port '' @ str_int port @ '' is open (Service: '' @
         (if verbose then identify_service (net ip port) port else ''Unknown'') @ '')'']) \<and>
   (socket_result (net ip port) = None \<and> connect_ex (net ip port) ip port = Inl e \<longrightarrow>
      printed (scan_port net ip port verbose) =
        [''Error scanning port '' @ str_int port @ '': '' @ exc_str e]) \<and>
   (socket_result (net ip port) = Some e \<longrightarrow>
      printed (scan_port net ip port verbose) =
        [''Error scanning port '' @ str_int port @ '': '' @ exc_str e])"
  by (simp add: scan_port_events open_line_def error_line_def)

lemma example_23:
  "socket_result (example_net ''10.0.0.1'' 23) = None"
  "connect_ex (example_net ''10.0.0.1'' 23) ''10.0.0.1'' 23 = Inr 111"
  by (simp_all add: example_net_def refused_def connect_ex_def)

lemma example_22:
  "socket_result (example_net ''10.0.0.1'' 22) = None"
  "connect_ex (example_net ''10.0.0.1'' 22) ''10.0.0.1'' 22 = Inr 0"
  by (simp_all add: example_net_def refused_def connect_ex_def)

theorem scan_port_output_witness:
  "socket_result (example_net ''10.0.0.1'' 23) = None \<and>
   connect_ex (example_net ''10.0.0.1'' 23) ''10.0.0.1'' 23 = Inr 111 \<and> (111::int) \<noteq> 0 \<and>
   printed (scan_port example_net ''10.0.0.1'' 23 True) = [] \<and>
   socket_result (example_net ''10.0.0.1'' 22) = None \<and>
   connect_ex (example_net ''10.0.0.1'' 22) ''10.0.0.1'' 22 = Inr 0 \<and>
   printed (scan_port example_net ''10.0.0.1'' 22 False) =
     [''Port 22 is open (Service: Unknown)'']"
proof -
  have "str_int 22 = ''22''" by (simp add: str_eval)
  with scan_port_output[of example_net "''10.0.0.1''" 23 111 True]
    scan_port_output[of example_net "''10.0.0.1''" 22 _ False]
    example_23 example_22
  show ?thesis by simp
qed

text \<open>
  The connection attempt to port 70000 fails, \<^verbatim>\<open>connect_ex\<close> raising, and a line is
  printed.
\<close>

theorem failed_connection_prints_counterexample:
  "connect_ex (example_net ''10.0.0.1'' 70000) ''10.0.0.1'' 70000 =
     Inl (Exception ''OverflowError'' ''connect_ex(): port must be 0-65535.'') \<and>
   printed (scan_port example_net ''10.0.0.1'' 70000 False) =
     [''Error scanning port 70000: connect_ex(): port must be 0-65535.'']"
  by (simp add: scan_port_70000 overflow_70000)

subsection \<open>Runs of a scan\<close>

lemma launch_state:
  "launch ip lo hi =
     Inr \<lparr>main = Print (banner ip lo hi) # replicate (nat (min 100 (hi - lo + 1))) ThreadStart @
                 map QueuePut [lo..hi] @ [QueueJoin],
          queue = [], unfinished_tasks = 0, threads = [],
          stdout = [], calls = [], processed = []\<rparr>"
  by (simp add: launch_def threaded_port_scan_program)

lemma launch_inv:
  assumes "launch ip lo hi = Inr s0"
  shows "scan_inv lo hi s0"
proof -
  let ?pre = "Print (banner ip lo hi) # replicate (nat (min 100 (hi - lo + 1))) ThreadStart @
              map QueuePut [lo..hi]"
  from assms have s0: "s0 = \<lparr>main = ?pre @ [QueueJoin], queue = [], unfinished_tasks = 0,
      threads = [], stdout = [], calls = [], processed = []\<rparr>"
    by (simp add: launch_state)
  have "QueueJoin \<notin> set ?pre" by auto
  moreover have "puts (?pre @ [QueueJoin]) = [lo..hi]"
    using puts_program[of "banner ip lo hi" _ "[lo..hi]"] by simp
  ultimately show ?thesis
    unfolding scan_inv_def s0 by (simp del: append.simps append_assoc)
qed

lemma reachable_inv: "reachable net ip lo hi s \<Longrightarrow> scan_inv lo hi s"
  unfolding reachable_def
  using exec_invariant[where P = "scan_inv lo hi"] launch_inv inv_step by blast

lemma calls_inv_step: "calls_inv s \<Longrightarrow> step net ip t s = Some s' \<Longrightarrow> calls_inv s'"
  by (cases t)
    (auto simp: step_def main_step_def worker_step_def calls_inv_def threader_call_def
      split: list.splits event.splits worker.splits if_splits)

lemma reachable_calls_inv:
  assumes "reachable net ip lo hi s"
  shows "calls_inv s"
proof -
  from assms obtain s0 sched where
    l: "launch ip lo hi = Inr s0" and e: "exec net ip sched s0 = Some s"
    unfolding reachable_def by blast
  from l have "calls_inv s0" by (auto simp: launch_state calls_inv_def)
  with e show ?thesis
    using exec_invariant[where P = calls_inv] calls_inv_step by blast
qed

lemma returned_stuck:
  assumes "scan_inv lo hi s" and "main s = []"
  shows "step net ip t s = None"
proof -
  from assms have u: "unfinished_tasks s = 0" by (auto simp: scan_inv_def)
  with assms(1) have q: "queue s = []" and h: "held (threads s) = {#}"
    by (auto simp: scan_inv_def)
  from assms(1) have c: "Crashed \<notin> set (threads s)" by (simp add: scan_inv_def)
  show ?thesis
  proof (cases t)
    case MainThread
    with assms(2) show ?thesis by (simp add: step_def main_step_def)
  next
    case (WorkerThread i)
    show ?thesis
    proof (cases "i < length (threads s)")
      case True
      then have "threads s ! i \<in> set (threads s)" by simp
      with h c have "threads s ! i = Idle" by (rule held_empty_idle)
      with WorkerThread q True show ?thesis by (simp add: step_def worker_step_def)
    next
      case False
      with WorkerThread show ?thesis by (simp add: step_def worker_step_def)
    qed
  qed
qed

lemma exec_stuck:
  assumes "\<And>t. step net ip t s = None" and "exec net ip sched s = Some s'"
  shows "s' = s"
  using assms by (cases sched) simp_all

lemma returned_facts:
  assumes "scan_inv lo hi s" and "main s = []"
  shows "queue s = []" "unfinished_tasks s = 0" "\<forall>w \<in> set (threads s). w = Idle"
    "mset (processed s) = mset [lo..hi]" "mset (map call_port (calls s)) = mset [lo..hi]"
proof -
  from assms have u: "unfinished_tasks s = 0" by (auto simp: scan_inv_def)
  with assms(1) have q: "queue s = []" and h: "held (threads s) = {#}"
    by (auto simp: scan_inv_def)
  from assms(1) have c: "Crashed \<notin> set (threads s)" by (simp add: scan_inv_def)
  from h c have i: "\<forall>w \<in> set (threads s). w = Idle" using held_empty_idle by blast
  have "scanned ws = {#}" if "\<forall>w \<in> set ws. w = Idle" for ws
    using that by (induction ws) simp_all
  with i have sc: "scanned (threads s) = {#}" by blast
  from assms q h have p: "mset (processed s) = mset [lo..hi]" by (simp add: scan_inv_def)
  from assms(1) sc p have "mset (map call_port (calls s)) = mset [lo..hi]"
    by (simp add: scan_inv_def)
  with u q i p show "queue s = []" "unfinished_tasks s = 0" "\<forall>w \<in> set (threads s). w = Idle"
    "mset (processed s) = mset [lo..hi]" "mset (map call_port (calls s)) = mset [lo..hi]"
    by simp_all
qed

lemma processed_were_scanned:
  "scan_inv lo hi s \<Longrightarrow> mset (processed s) \<subseteq># mset (map call_port (calls s))"
  by (simp add: scan_inv_def)

lemma scan_port_example_22:
  "scan_port example_net ''10.0.0.1'' 22 True =
     [SocketNew, SetTimeout 1, Print ''Port 22 is open (Service: Unknown)'', SocketClose]"
  by (simp add: scan_port_events connect_ex_def open_line_def str_eval identify_service_def
      identify_service_try_def SERVICE_PROBES_def example_net_def refused_def
      SERVICE_KEYWORDS_def str_in_def codepoints_def)

lemma scan_port_example_150:
  "scan_port example_net ''10.0.0.1'' 150 False = [SocketNew, SetTimeout 1, SocketClose]"
  by (simp add: scan_port_events example_net_def refused_def connect_ex_def)

lemma reach_22: "reachable example_net ''10.0.0.1'' 22 22 final_22"
  unfolding reachable_def
  by (rule exI[of _ "\<lparr>main = [Print (banner ''10.0.0.1'' 22 22), ThreadStart, QueuePut 22,
          QueueJoin], queue = [], unfinished_tasks = 0, threads = [],
          stdout = [], calls = [], processed = []\<rparr>"], rule exI[of _ sched_22])
    (simp add: launch_state upto_rec1 sched_22_def final_22_def step_def main_step_def
      worker_step_def threader_call_def scan_port_example_22)

lemma reach_150: "reachable example_net ''10.0.0.1'' 150 150 final_150"
  unfolding reachable_def
  by (rule exI[of _ "\<lparr>main = [Print (banner ''10.0.0.1'' 150 150), ThreadStart, QueuePut 150,
          QueueJoin], queue = [], unfinished_tasks = 0, threads = [],
          stdout = [], calls = [], processed = []\<rparr>"], rule exI[of _ sched_22])
    (simp add: launch_state upto_rec1 sched_22_def final_150_def step_def main_step_def
      worker_step_def threader_call_def scan_port_example_150)

lemma idle_inv_step: "idle_inv s \<Longrightarrow> step net ip t s = Some s' \<Longrightarrow> idle_inv s'"
  by (cases t)
    (auto simp: step_def main_step_def worker_step_def idle_inv_def
      split: list.splits event.splits if_splits)

lemma idle_inv_progress:
  assumes "idle_inv s" and "main s \<noteq> []"
  shows "step net ip MainThread s \<noteq> None"
proof -
  from assms(2) obtain e rest where m: "main s = e # rest" by (cases "main s") auto
  with assms(1) have "e = QueueJoin \<or> (\<exists>line. e = Print line)" and "unfinished_tasks s = 0"
    by (auto simp: idle_inv_def)
  with m show ?thesis by (auto simp: step_def main_step_def)
qed

lemma empty_range_launch:
  assumes "hi < lo"
  shows "launch ip lo hi =
     Inr \<lparr>main = [Print (banner ip lo hi), QueueJoin], queue = [], unfinished_tasks = 0,
          threads = [], stdout = [], calls = [], processed = []\<rparr>"
  using assms by (simp add: launch_state)

lemma empty_range_reachable:
  assumes "hi < lo" and "reachable net ip lo hi s"
  shows "idle_inv s"
proof -
  from assms(2) obtain s0 sched where
    l: "launch ip lo hi = Inr s0" and e: "exec net ip sched s0 = Some s"
    unfolding reachable_def by blast
  from l assms(1) have "idle_inv s0" by (auto simp: empty_range_launch idle_inv_def)
  with e show ?thesis
    using exec_invariant[where P = idle_inv] idle_inv_step by blast
qed

text \<open>
  Claim C2. \<^verbatim>\<open>threaded_port_scan\<close> returns only when the queue is empty, the counter
  of unfinished tasks is zero and every worker is back at \<^verbatim>\<open>queue.get()\<close>: each port
  of the range has then been taken by a worker, passed to \<^verbatim>\<open>scan_port\<close> and marked
  done, once. No thread can take a step after that, so nothing more is printed. At any
  moment of a scan, the ports marked done are among those whose \<^verbatim>\<open>scan_port\<close> call
  was made.
\<close>

theorem join_waits_for_every_port:
  assumes "reachable net ip min_port max_port s"
  shows "mset (processed s) \<subseteq># mset (map call_port (calls s)) \<and>
         (returned s \<longrightarrow>
            queue s = [] \<and> unfinished_tasks s = 0 \<and> (\<forall>w \<in> set (threads s). w = Idle) \<and>
            mset (processed s) = mset [min_port..max_port] \<and>
            mset (map call_port (calls s)) = mset [min_port..max_port] \<and>
            (\<forall>t. step net ip t s = None) \<and>
            (\<forall>sched s'. exec net ip sched s = Some s' \<longrightarrow> stdout s' = stdout s))"
proof -
  from assms have i: "scan_inv min_port max_port s" by (rule reachable_inv)
  have "\<forall>sched s'. exec net ip sched s = Some s' \<longrightarrow> stdout s' = stdout s" if "main s = []"
    using exec_stuck[of net ip s] returned_stuck[OF i that, of net ip] by blast
  with i show ?thesis
    using processed_were_scanned[OF i] returned_facts[OF i] returned_stuck[OF i, of net ip]
    unfolding returned_def by blast
qed

theorem join_waits_for_every_port_witness:
  "reachable example_net ''10.0.0.1'' 22 22 final_22 \<and> returned final_22 \<and>
   mset (processed final_22) = mset [22..22] \<and>
   step example_net ''10.0.0.1'' (WorkerThread 0) final_22 = None"
proof -
  have r: "returned final_22" by (simp add: returned_def final_22_def)
  from join_waits_for_every_port[OF reach_22] r reach_22 show ?thesis by blast
qed

text \<open>
  Claim C4. A worker calls \<^verbatim>\<open>scan_port\<close> on the port it took with the flag
  \<open>port \<le> 100\<close>: in every state of every scan, whatever the range, each call made so far
  has its flag set exactly when its port is at most 100.
\<close>

theorem verbose_iff_port_at_most_100:
  "threader_call ip port = ScanPort ip port (port \<le> 100) \<and>
   (reachable net ip min_port max_port s \<longrightarrow>
      (\<forall>c \<in> set (calls s). call_verbose c \<longleftrightarrow> call_port c \<le> 100))"
  using reachable_calls_inv[of net ip min_port max_port s]
  by (auto simp: threader_call_def calls_inv_def)

theorem verbose_iff_port_at_most_100_witness:
  "reachable example_net ''10.0.0.1'' 150 150 final_150 \<and>
   ScanPort ''10.0.0.1'' 150 False \<in> set (calls final_150) \<and>
   \<not> call_verbose (ScanPort ''10.0.0.1'' 150 False) \<and>
   reachable example_net ''10.0.0.1'' 22 22 final_22 \<and>
   ScanPort ''10.0.0.1'' 22 True \<in> set (calls final_22) \<and>
   call_verbose (ScanPort ''10.0.0.1'' 22 True)"
proof -
  have a: "ScanPort ''10.0.0.1'' 150 False \<in> set (calls final_150)"
    by (simp add: final_150_def)
  have b: "ScanPort ''10.0.0.1'' 22 True \<in> set (calls final_22)"
    by (simp add: final_22_def)
  from verbose_iff_port_at_most_100[of "''10.0.0.1''" 0 example_net 150 150 final_150]
    reach_150 a
  have "call_verbose (ScanPort ''10.0.0.1'' 150 False) \<longleftrightarrow>
        call_port (ScanPort ''10.0.0.1'' 150 False) \<le> 100" by blast
  moreover
  from verbose_iff_port_at_most_100[of "''10.0.0.1''" 0 example_net 22 22 final_22]
    reach_22 b
  have "call_verbose (ScanPort ''10.0.0.1'' 22 True) \<longleftrightarrow>
        call_port (ScanPort ''10.0.0.1'' 22 True) \<le> 100" by blast
  ultimately show ?thesis using reach_150 reach_22 a b by simp
qed

text \<open>
  Claim C10. For \<open>max_port < min_port\<close> the main thread only prints the banner and
  joins: it raises nothing, starts no worker and puts no port. The join finds the counter
  at zero, so the call returns after these two steps; it can always take its next step
  until then, and no state of the scan has a worker, a queued port, a call of
  \<^verbatim>\<open>scan_port\<close> or a processed port.
\<close>

theorem empty_range_scans_nothing:
  assumes "max_port < min_port"
  shows "threaded_port_scan ip min_port max_port =
           Inr [Print (banner ip min_port max_port), QueueJoin] \<and>
         (\<exists>s0 s. launch ip min_port max_port = Inr s0 \<and>
                  exec net ip [MainThread, MainThread] s0 = Some s \<and> returned s) \<and>
         (\<forall>s. reachable net ip min_port max_port s \<longrightarrow>
                threads s = [] \<and> queue s = [] \<and> calls s = [] \<and> processed s = [] \<and>
                (\<not> returned s \<longrightarrow> step net ip MainThread s \<noteq> None))"
proof -
  have p: "threaded_port_scan ip min_port max_port =
           Inr [Print (banner ip min_port max_port), QueueJoin]"
    using assms by (simp add: threaded_port_scan_program)
  have "exec net ip [MainThread, MainThread]
          \<lparr>main = [Print (banner ip min_port max_port), QueueJoin], queue = [],
           unfinished_tasks = 0, threads = [], stdout = [], calls = [], processed = []\<rparr> =
        Some \<lparr>main = [], queue = [], unfinished_tasks = 0, threads = [],
              stdout = [banner ip min_port max_port], calls = [], processed = []\<rparr>"
    by (simp add: step_def main_step_def)
  then have r: "\<exists>s0 s. launch ip min_port max_port = Inr s0 \<and>
                  exec net ip [MainThread, MainThread] s0 = Some s \<and> returned s"
    using empty_range_launch[OF assms, of ip] by (simp add: returned_def)
  have "threads s = [] \<and> queue s = [] \<and> calls s = [] \<and> processed s = [] \<and>
        (\<not> returned s \<longrightarrow> step net ip MainThread s \<noteq> None)"
    if "reachable net ip min_port max_port s" for s
  proof -
    from assms that have i: "idle_inv s" by (rule empty_range_reachable)
    then show ?thesis
      using idle_inv_progress[OF i, of net ip] by (simp add: idle_inv_def returned_def)
  qed
  with p r show ?thesis by blast
qed

theorem empty_range_scans_nothing_witness:
  "(3::int) < 5 \<and>
   threaded_port_scan ''10.0.0.1'' 5 3 = Inr [Print (banner ''10.0.0.1'' 5 3), QueueJoin]"
proof -
  have h: "(3::int) < 5" by simp
  from empty_range_scans_nothing[OF h, of "''10.0.0.1''" example_net] h show ?thesis
    by blast
qed

end
